theory Spec2Isabelle
  imports Main
begin

section \<open>The streaming run controller of \<open>frontend/app/page.tsx\<close>\<close>

text \<open>
  The page component keeps its run state in React state cells (\<open>events\<close>,
  \<open>finalResult\<close>, \<open>errorMsg\<close>, \<open>isStreaming\<close>) and one mutable reference
  (\<open>eventSourceRef\<close>) to the live \<open>EventSource\<close>. Each function of the component
  (\<open>resetRun\<close>, \<open>stopStream\<close>, \<open>startStream\<close> and the three listeners that
  \<open>startStream\<close> registers) is embedded as a function on a record of these cells.
  State updates queued by one handler are applied in the order they were queued, so a
  handler is a composition of record updates.
\<close>

subsection \<open>JavaScript values that arrive over the stream\<close>

text \<open>
  The body of a stream frame is handed to \<open>JSON.parse\<close>. The parser is the platform's;
  the model starts from its outcome: a syntax error, or a value. A number is carried by
  its canonical rendering \<open>String(n)\<close>, which is all the page ever needs of it: the
  rendering is \<open>0\<close> exactly for the two zeros, the only falsy numbers a parse can give,
  and it is the property key the number turns into. The members of an object are kept in
  source order; where a name is repeated the parser keeps the last one.
\<close>

datatype json =
    JNull
  | JBool bool
  | JNum string
  | JStr string
  | JArr "json list"
  | JObj "(string \<times> json) list"

text \<open>A value read from a property: \<open>None\<close> is JavaScript's \<open>undefined\<close>.\<close>

type_synonym jsval = "json option"

datatype parse_outcome = SyntaxError | Value json

datatype error = TypeError

text \<open>\<open>safeJsonParse\<close>: the parse, with every exception turned into \<open>null\<close>.\<close>

definition safeJsonParse :: "parse_outcome \<Rightarrow> json" where
  "safeJsonParse p = (case p of SyntaxError \<Rightarrow> JNull | Value v \<Rightarrow> v)"

text \<open>The truth value JavaScript gives a value in a condition.\<close>

fun truthy :: "json \<Rightarrow> bool" where
  "truthy JNull = False"
| "truthy (JBool b) = b"
| "truthy (JNum n) = (n \<noteq> ''0'')"
| "truthy (JStr s) = (s \<noteq> [])"
| "truthy (JArr xs) = True"
| "truthy (JObj kvs) = True"

definition truthy_val :: "jsval \<Rightarrow> bool" where
  "truthy_val v = (case v of None \<Rightarrow> False | Some j \<Rightarrow> truthy j)"

text \<open>
  Reading a property, \<open>data?.k\<close> or \<open>data.k\<close>. Of the names the page reads
  (\<open>agent\<close>, \<open>status\<close>, \<open>summary\<close>, \<open>ms\<close>, \<open>error\<close>) none exists on \<open>null\<close>, a
  boolean, a number, a string or an array, so only an object can answer.
\<close>

fun get_prop :: "json \<Rightarrow> string \<Rightarrow> jsval" where
  "get_prop (JObj kvs) k = map_of (rev kvs) k"
| "get_prop v k = None"

text \<open>
  The computed key of \<open>[agent]: ...\<close>: the value is turned into a string, and the
  conversion can throw. An object is converted by its \<open>toString\<close> method: a parsed object
  inherits the one that answers \<open>[object Object]\<close>, unless it has a member of that name
  of its own; such a member is a parsed value, never a function, the inherited
  \<open>valueOf\<close> (or a member of that name) gives no primitive either, and the conversion
  throws \<open>TypeError\<close>. An array joins the conversions of its elements with commas, from
  left to right, \<open>null\<close> elements giving the empty string.
\<close>

fun join_commas :: "string list \<Rightarrow> string" where
  "join_commas [] = []"
| "join_commas [x] = x"
| "join_commas (x # y # ys) = x @ '','' @ join_commas (y # ys)"

text \<open>The results of a list of conversions, up to the first that throws.\<close>

fun collect :: "(error + 'a) list \<Rightarrow> error + 'a list" where
  "collect [] = Inr []"
| "collect (Inl e # rs) = Inl e"
| "collect (Inr x # rs) = (case collect rs of Inl e \<Rightarrow> Inl e | Inr xs \<Rightarrow> Inr (x # xs))"

fun toKey :: "json \<Rightarrow> error + string" where
  "toKey JNull = Inr ''null''"
| "toKey (JBool b) = Inr (if b then ''true'' else ''false'')"
| "toKey (JNum n) = Inr n"
| "toKey (JStr s) = Inr s"
| "toKey (JArr xs) =
     (case collect (map (\<lambda>x. if x = JNull then Inr [] else toKey x) xs) of
        Inl e \<Rightarrow> Inl e
      | Inr ks \<Rightarrow> Inr (join_commas ks))"
| "toKey (JObj kvs) =
     (case map_of kvs ''toString'' of
        Some m \<Rightarrow> Inl TypeError
      | None \<Rightarrow> Inr ''[object Object]'')"

definition toPropertyKey :: "jsval \<Rightarrow> error + string" where
  "toPropertyKey v = (case v of None \<Rightarrow> Inr ''undefined'' | Some j \<Rightarrow> toKey j)"

subsection \<open>Strings the user types\<close>

text \<open>
  \<open>question.trim()\<close> removes white space and line terminators at both ends. Characters
  are code units below 256; of JavaScript's white space these are the tab, the line
  feed, the vertical tab, the form feed, the carriage return, the space and the
  no-break space.
\<close>

definition isWhiteSpace :: "char \<Rightarrow> bool" where
  "isWhiteSpace c = (c \<in> set [CHR 0x09, CHR 0x0A, CHR 0x0B, CHR 0x0C, CHR 0x0D, CHR 0x20, CHR 0xA0])"

definition trim :: "string \<Rightarrow> string" where
  "trim s = rev (dropWhile isWhiteSpace (rev (dropWhile isWhiteSpace s)))"

subsection \<open>The state of the page\<close>

text \<open>
  \<open>AgentEvent\<close>. The type annotations are erased when the page runs, and the listener
  stores what the frame carried, so every field holds an arbitrary value; a field that
  is absent reads as \<open>undefined\<close>.
\<close>

record agent_event =
  agent :: jsval
  status :: jsval
  summary :: jsval
  ms :: jsval
  details :: jsval

text \<open>
  An \<open>EventSource\<close> object: the query parameters of its URL, and whether \<open>close()\<close> has
  been called on it. The objects ever created are kept in a store, addressed by position.
\<close>

record event_source =
  es_question :: string
  es_doc_id :: string
  es_top_k :: int
  es_closed :: bool

record page =
  question :: string
  topKSources :: int
  docId :: string
  events :: "string \<rightharpoonup> agent_event"
  finalResult :: json
  errorMsg :: json
  isStreaming :: bool
  eventSourceRef :: "nat option"
  sources :: "event_source list"

definition AGENT_KEYS :: "string list" where
  "AGENT_KEYS = [''relevance'', ''retrieval'', ''research'', ''verify'']"

definition idle_event :: "string \<Rightarrow> agent_event" where
  "idle_event k =
     \<lparr>agent = Some (JStr k), status = Some (JStr ''idle''), summary = None, ms = None,
      details = None\<rparr>"

definition initial_events :: "string \<rightharpoonup> agent_event" where
  "initial_events =
     [''relevance'' \<mapsto> idle_event ''relevance'',
      ''retrieval'' \<mapsto> idle_event ''retrieval'',
      ''research'' \<mapsto> idle_event ''research'',
      ''verify'' \<mapsto> idle_event ''verify'']"

text \<open>The values the \<open>useState\<close> calls start from.\<close>

definition init_page :: page where
  "init_page =
     \<lparr>question = [], topKSources = 5, docId = [], events = initial_events,
      finalResult = JNull, errorMsg = JStr [], isStreaming = False,
      eventSourceRef = None, sources = []\<rparr>"

subsection \<open>The functions of the component\<close>

definition resetRun :: "page \<Rightarrow> page" where
  "resetRun s = s\<lparr>errorMsg := JStr [], finalResult := JNull, events := initial_events\<rparr>"

definition es_close :: "nat \<Rightarrow> event_source list \<Rightarrow> event_source list" where
  "es_close i srcs = (if i < length srcs then srcs[i := (srcs ! i)\<lparr>es_closed := True\<rparr>] else srcs)"

definition stopStream :: "page \<Rightarrow> page" where
  "stopStream s =
     (let s1 = (case eventSourceRef s of
                  Some i \<Rightarrow> s\<lparr>sources := es_close i (sources s), eventSourceRef := None\<rparr>
                | None \<Rightarrow> s)
      in s1\<lparr>isStreaming := False\<rparr>)"

text \<open>\<open>{...prev.relevance, status: "running"}\<close>; spreading \<open>undefined\<close> copies nothing.\<close>

definition spread_status :: "agent_event option \<Rightarrow> json \<Rightarrow> agent_event" where
  "spread_status e v =
     (case e of
        None \<Rightarrow> \<lparr>agent = None, status = Some v, summary = None, ms = None, details = None\<rparr>
      | Some x \<Rightarrow> x\<lparr>status := Some v\<rparr>)"

definition startStream :: "page \<Rightarrow> page" where
  "startStream s =
     (let s1 = resetRun s; q = trim (question s) in
      if q = [] then s1\<lparr>errorMsg := JStr ''Please enter a question.''\<rparr>
      else if docId s = [] then s1\<lparr>errorMsg := JStr ''Please select a document.''\<rparr>
      else
        let s2 = s1\<lparr>events := (events s1)(''relevance'' \<mapsto>
                        spread_status (events s1 ''relevance'') (JStr ''running'')),
                    isStreaming := True\<rparr>;
            es = \<lparr>es_question = q, es_doc_id = docId s, es_top_k = topKSources s,
                  es_closed = False\<rparr>
        in s2\<lparr>sources := sources s2 @ [es], eventSourceRef := Some (length (sources s2))\<rparr>)"

text \<open>
  The listener for \<open>agent\<close> frames. The key \<open>[agent]\<close> is computed inside the updater
  handed to \<open>setEvents\<close>; when the conversion throws, the updater throws, as the one of
  \<open>es.onerror\<close> does on a missing entry.
\<close>

definition agent_listener :: "page \<Rightarrow> parse_outcome \<Rightarrow> error + page" where
  "agent_listener s evt =
     (let data = safeJsonParse evt in
      if \<not> truthy_val (get_prop data ''agent'') then Inr s
      else
        let a = get_prop data ''agent'';
            st = (if truthy_val (get_prop data ''status'') then get_prop data ''status''
                  else Some (JStr ''running''))
        in case toPropertyKey a of
             Inl e \<Rightarrow> Inl e
           | Inr k \<Rightarrow>
               Inr (s\<lparr>events := (events s)(k \<mapsto>
                      \<lparr>agent = a, status = st, summary = get_prop data ''summary'',
                       ms = get_prop data ''ms'', details = Some data\<rparr>)\<rparr>))"

text \<open>The listener for \<open>final\<close> frames.\<close>

definition final_listener :: "page \<Rightarrow> parse_outcome \<Rightarrow> page" where
  "final_listener s evt =
     (let data = safeJsonParse evt;
          s1 = (case get_prop data ''error'' of
                  Some e \<Rightarrow>
                    if truthy e then s\<lparr>errorMsg := e\<rparr>
                    else if truthy data then s\<lparr>finalResult := data\<rparr> else s
                | None \<Rightarrow> if truthy data then s\<lparr>finalResult := data\<rparr> else s)
      in stopStream s1)"

text \<open>
  \<open>es.onerror\<close>. The updater reads \<open>prev.verify.status\<close>, which throws when the
  \<open>verify\<close> entry is missing.
\<close>

definition onerror :: "page \<Rightarrow> error + page" where
  "onerror s =
     (let s1 = stopStream s;
          s2 = s1\<lparr>errorMsg := JStr ''Stream error (backend unreachable or crashed). Check FastAPI logs.''\<rparr>
      in case events s2 ''verify'' of
           None \<Rightarrow> Inl TypeError
         | Some v \<Rightarrow>
             Inr (s2\<lparr>events := (events s2)(''verify'' \<mapsto>
                    v\<lparr>status := Some (if status v = Some (JStr ''done'') then JStr ''done''
                                       else JStr ''error'')\<rparr>)\<rparr>))"

definition overallStatus :: "page \<Rightarrow> string" where
  "overallStatus s =
     (if isStreaming s then ''RUNNING''
      else if truthy (errorMsg s) then ''ERROR''
      else if truthy (finalResult s) then ''DONE''
      else ''IDLE'')"

subsection \<open>What can happen to the page\<close>

text \<open>
  The user edits the inputs and clicks the three buttons; the platform dispatches the
  frames and errors of an \<open>EventSource\<close> to the listeners registered on it. The listeners
  close over the state setters and \<open>eventSourceRef\<close> only, so they do the same whichever
  \<open>EventSource\<close> the event came from. The fetch of the document list, which runs once
  when the page mounts, and the base URL of the service are left out.
\<close>

datatype action =
    SetQuestion string
  | SetDocId string
  | SetTopKSources int
  | ClickRun
  | ClickStop
  | ClickReset
  | AgentFrame nat parse_outcome
  | FinalFrame nat parse_outcome
  | StreamError nat

fun handler :: "page \<Rightarrow> action \<Rightarrow> error + page" where
  "handler s (SetQuestion q) = Inr (s\<lparr>question := q\<rparr>)"
| "handler s (SetDocId d) = Inr (s\<lparr>docId := d\<rparr>)"
| "handler s (SetTopKSources n) = Inr (s\<lparr>topKSources := n\<rparr>)"
| "handler s ClickRun = Inr (startStream s)"
| "handler s ClickStop = Inr (stopStream s)"
| "handler s ClickReset = Inr (resetRun s)"
| "handler s (AgentFrame i d) = agent_listener s d"
| "handler s (FinalFrame i d) = Inr (final_listener s d)"
| "handler s (StreamError i) = onerror s"

text \<open>
  The Run button carries \<open>disabled={isStreaming || !question.trim() || !docId}\<close>, the Stop
  button is rendered only while \<open>isStreaming\<close>, the Reset button is always there. An
  \<open>EventSource\<close> on which \<open>close()\<close> was called dispatches nothing any more.
\<close>

definition run_disabled :: "page \<Rightarrow> bool" where
  "run_disabled s = (isStreaming s \<or> trim (question s) = [] \<or> docId s = [])"

definition es_live :: "page \<Rightarrow> nat \<Rightarrow> bool" where
  "es_live s i = (if i < length (sources s) then \<not> es_closed (sources s ! i) else False)"

fun enabled :: "page \<Rightarrow> action \<Rightarrow> bool" where
  "enabled s ClickRun = (\<not> run_disabled s)"
| "enabled s ClickStop = isStreaming s"
| "enabled s (AgentFrame i d) = es_live s i"
| "enabled s (FinalFrame i d) = es_live s i"
| "enabled s (StreamError i) = es_live s i"
| "enabled s a = True"

text \<open>Calling the functions one after the other, whatever the buttons show.\<close>

fun run_calls :: "page \<Rightarrow> action list \<Rightarrow> error + page" where
  "run_calls s [] = Inr s"
| "run_calls s (a # as) =
     (case handler s a of Inl e \<Rightarrow> Inl e | Inr s' \<Rightarrow> run_calls s' as)"

text \<open>The page as rendered: a click on a disabled button and a frame of a closed stream do nothing.\<close>

fun run_ui :: "page \<Rightarrow> action list \<Rightarrow> error + page" where
  "run_ui s [] = Inr s"
| "run_ui s (a # as) =
     (if enabled s a
      then (case handler s a of Inl e \<Rightarrow> Inl e | Inr s' \<Rightarrow> run_ui s' as)
      else run_ui s as)"

definition open_streams :: "page \<Rightarrow> nat" where
  "open_streams s = length (filter (\<lambda>e. \<not> es_closed e) (sources s))"

subsection \<open>Concrete pages and frames\<close>

text \<open>A page on which a question was typed and a document selected, before any run.\<close>

definition ready_page :: page where
  "ready_page = init_page\<lparr>question := ''What is the refund policy?'', docId := ''policy.pdf''\<rparr>"

definition relevance_done_frame :: parse_outcome where
  "relevance_done_frame =
     Value (JObj [(''agent'', JStr ''relevance''), (''status'', JStr ''done''),
                  (''summary'', JStr ''Found relevant content'')])"

definition answer_frame :: parse_outcome where
  "answer_frame =
     Value (JObj [(''question'', JStr ''What is the refund policy?''),
                  (''is_relevant'', JBool True),
                  (''draft_answer'', JStr ''Refunds within 30 days.''),
                  (''sources'', JArr [])])"

text \<open>The page after a run that ended with an answer, and the same page with the question blanked.\<close>

definition answered_run :: "action list" where
  "answered_run = [ClickRun, AgentFrame 0 relevance_done_frame, FinalFrame 0 answer_frame]"

definition answered_page :: page where
  "answered_page = (case run_ui ready_page answered_run of Inr s \<Rightarrow> s | Inl e \<Rightarrow> ready_page)"

definition blank_page :: page where
  "blank_page = answered_page\<lparr>question := ''   ''\<rparr>"

text \<open>Two final frames that carry an \<open>error\<close> field: one with a message, one with the empty string.\<close>

definition quota_error_frame :: parse_outcome where
  "quota_error_frame = Value (JObj [(''error'', JStr ''LLM quota exceeded'')])"

definition empty_error_frame :: parse_outcome where
  "empty_error_frame =
     Value (JObj [(''question'', JStr ''What is the refund policy?''), (''error'', JStr [])])"

definition retrieval_running_frame :: parse_outcome where
  "retrieval_running_frame =
     Value (JObj [(''agent'', JStr ''retrieval''), (''status'', JStr ''running'')])"

definition retrieval_done_frame :: parse_outcome where
  "retrieval_done_frame =
     Value (JObj [(''agent'', JStr ''retrieval''), (''status'', JStr ''done''), (''ms'', JNum ''42'')])"

subsection \<open>Runs and stage frames\<close>

text \<open>The \<open>agent\<close> frames of a stream, in the order received, up to the first throw.\<close>

fun apply_frames :: "page \<Rightarrow> parse_outcome list \<Rightarrow> error + page" where
  "apply_frames s [] = Inr s"
| "apply_frames s (e # es) =
     (case agent_listener s e of Inl x \<Rightarrow> Inl x | Inr s' \<Rightarrow> apply_frames s' es)"

text \<open>A run: \<open>startStream\<close>, then the \<open>agent\<close> frames.\<close>

definition run_frames :: "page \<Rightarrow> parse_outcome list \<Rightarrow> error + page" where
  "run_frames s evts = apply_frames (startStream s) evts"

text \<open>A frame whose \<open>agent\<close> value can be turned into a property key; an action that is not such a frame throws nothing on the page.\<close>

definition frame_keyable :: "parse_outcome \<Rightarrow> bool" where
  "frame_keyable evt =
     (case toPropertyKey (get_prop (safeJsonParse evt) ''agent'') of
        Inl e \<Rightarrow> False
      | Inr k \<Rightarrow> True)"

fun action_keyable :: "action \<Rightarrow> bool" where
  "action_keyable (AgentFrame i d) = frame_keyable d"
| "action_keyable a = True"

text \<open>A stage frame whose \<open>agent\<close> is an object with a \<open>toString\<close> member.\<close>

definition unkeyable_frame :: parse_outcome where
  "unkeyable_frame = Value (JObj [(''agent'', JObj [(''toString'', JNum ''1'')])])"

text \<open>
  A stage frame as \<open>AgentEvent\<close> declares it: \<open>agent\<close> is one of the four stage names and
  \<open>status\<close> one of the four statuses.
\<close>

definition STATUSES :: "string list" where
  "STATUSES = [''idle'', ''running'', ''done'', ''error'']"

definition valid_stage_frame :: "parse_outcome \<Rightarrow> bool" where
  "valid_stage_frame evt =
     (case get_prop (safeJsonParse evt) ''agent'' of
        Some (JStr a) \<Rightarrow>
          (if a \<in> set AGENT_KEYS
           then (case get_prop (safeJsonParse evt) ''status'' of
                   Some (JStr st) \<Rightarrow> st \<in> set STATUSES
                 | _ \<Rightarrow> False)
           else False)
      | _ \<Rightarrow> False)"

text \<open>The body of the last frame of a sequence that names the stage \<open>k\<close>, if there is one.\<close>

definition last_frame_for :: "string \<Rightarrow> parse_outcome list \<Rightarrow> json option" where
  "last_frame_for k evts =
     (case filter (\<lambda>e. get_prop (safeJsonParse e) ''agent'' = Some (JStr k)) (rev evts) of
        [] \<Rightarrow> None
      | e # es \<Rightarrow> Some (safeJsonParse e))"

text \<open>The fields of a frame, read off its body.\<close>

definition frame_entry :: "json \<Rightarrow> agent_event" where
  "frame_entry d =
     \<lparr>agent = get_prop d ''agent'', status = get_prop d ''status'',
      summary = get_prop d ''summary'', ms = get_prop d ''ms'', details = Some d\<rparr>"

subsection \<open>The stream handle and the objects it points to\<close>

text \<open>
  What holds of the page between two events: the \<open>EventSource\<close> objects that were not
  closed are the one the handle points to, the handle is empty when \<open>isStreaming\<close> is
  off, and the \<open>verify\<close> entry is there.
\<close>

definition page_inv :: "page \<Rightarrow> bool" where
  "page_inv s =
     (open_streams s = (case eventSourceRef s of None \<Rightarrow> 0 | Some i \<Rightarrow> 1)
      \<and> (case eventSourceRef s of None \<Rightarrow> True | Some i \<Rightarrow> es_live s i)
      \<and> (if isStreaming s then True else eventSourceRef s = None)
      \<and> events s ''verify'' \<noteq> None)"

section \<open>Properties\<close>

lemmas page_defs = startStream_def resetRun_def stopStream_def agent_listener_def
  final_listener_def onerror_def overallStatus_def safeJsonParse_def truthy_val_def
  toPropertyKey_def es_close_def spread_status_def

lemmas concrete_defs = ready_page_def init_page_def initial_events_def idle_event_def
  trim_def isWhiteSpace_def open_streams_def es_live_def

lemmas answered_defs = blank_page_def answered_page_def answered_run_def
  relevance_done_frame_def answer_frame_def run_disabled_def

subsection \<open>Validation in \<open>startStream\<close>\<close>

text \<open>
  C2. The claim: a call of start whose question is empty after trimming, or whose
  document id is empty, opens no stream and leaves the stage states, the result and the
  phase as they were.

  \<open>startStream\<close> calls \<open>resetRun\<close> before it validates, and reports the failure through
  \<open>errorMsg\<close>. On the page left by an answered run whose question was then blanked, the
  call clears the result, puts the \<open>relevance\<close> stage back to idle and moves the overall
  status from \<open>DONE\<close> to \<open>ERROR\<close>.
\<close>

theorem startStream_validation_counterexample:
  "trim (question blank_page) = []
   \<and> overallStatus blank_page = ''DONE''
   \<and> overallStatus (startStream blank_page) = ''ERROR''
   \<and> finalResult blank_page \<noteq> JNull
   \<and> finalResult (startStream blank_page) = JNull
   \<and> status (the (events blank_page ''relevance'')) = Some (JStr ''done'')
   \<and> status (the (events (startStream blank_page) ''relevance'')) = Some (JStr ''idle'')
   \<and> errorMsg (startStream blank_page) = JStr ''Please enter a question.''
   \<and> run_ui ready_page answered_run = Inr answered_page"
  by (simp add: answered_defs page_defs concrete_defs)

text \<open>
  C2, as the code has it. A call of \<open>startStream\<close> whose question is empty after trimming,
  or whose document id is empty, creates no \<open>EventSource\<close> and leaves the stream handle
  and \<open>isStreaming\<close> as they were; it resets every stage to idle, clears the result and
  writes the validation message into \<open>errorMsg\<close>, so that the overall status is \<open>ERROR\<close>
  unless a stream is running.
\<close>

theorem startStream_validation:
  assumes "trim (question s) = [] \<or> docId s = []"
  shows "sources (startStream s) = sources s
   \<and> eventSourceRef (startStream s) = eventSourceRef s
   \<and> isStreaming (startStream s) = isStreaming s
   \<and> events (startStream s) = initial_events
   \<and> finalResult (startStream s) = JNull
   \<and> errorMsg (startStream s) =
        JStr (if trim (question s) = [] then ''Please enter a question.''
              else ''Please select a document.'')
   \<and> overallStatus (startStream s) = (if isStreaming s then ''RUNNING'' else ''ERROR'')"
  using assms by (auto simp: startStream_def resetRun_def overallStatus_def Let_def)

theorem startStream_validation_witness:
  "trim (question blank_page) = []
   \<and> sources (startStream blank_page) = sources blank_page
   \<and> events (startStream blank_page) = initial_events
   \<and> errorMsg (startStream blank_page) = JStr ''Please enter a question.''
   \<and> overallStatus (startStream blank_page) = ''ERROR''"
  using startStream_validation [of blank_page]
  by (simp add: answered_defs page_defs concrete_defs)

subsection \<open>\<open>resetRun\<close> during a run\<close>

text \<open>
  C3. The claim: reset during a run equals cancel followed by reinitialising the stages
  and clearing result, error message and phase; in particular it closes the open stream.

  \<open>resetRun\<close> never touches the stream. After a start, the \<open>EventSource\<close> is still live
  after \<open>resetRun\<close>, the overall status is still \<open>RUNNING\<close>, and the page differs from
  the one that \<open>stopStream\<close> followed by \<open>resetRun\<close> gives.
\<close>

theorem resetRun_keeps_stream_counterexample:
  "isStreaming (startStream ready_page)
   \<and> es_live (startStream ready_page) 0
   \<and> es_live (resetRun (startStream ready_page)) 0
   \<and> \<not> es_live (resetRun (stopStream (startStream ready_page))) 0
   \<and> overallStatus (resetRun (startStream ready_page)) = ''RUNNING''
   \<and> resetRun (startStream ready_page) \<noteq> resetRun (stopStream (startStream ready_page))"
  by (simp add: page_defs concrete_defs)

text \<open>
  C3, as the code has it. \<open>resetRun\<close> sets every stage to idle and clears the result and
  the error message; it leaves the \<open>EventSource\<close> objects, the stream handle and
  \<open>isStreaming\<close> as they were, so during a run the overall status stays \<open>RUNNING\<close> and
  is \<open>IDLE\<close> otherwise. Only \<open>stopStream\<close> followed by \<open>resetRun\<close> releases the handle
  and gives \<open>IDLE\<close>.
\<close>

theorem resetRun_keeps_stream:
  "sources (resetRun s) = sources s
   \<and> eventSourceRef (resetRun s) = eventSourceRef s
   \<and> isStreaming (resetRun s) = isStreaming s
   \<and> events (resetRun s) = initial_events
   \<and> finalResult (resetRun s) = JNull
   \<and> errorMsg (resetRun s) = JStr []
   \<and> overallStatus (resetRun s) = (if isStreaming s then ''RUNNING'' else ''IDLE'')
   \<and> overallStatus (resetRun (stopStream s)) = ''IDLE''
   \<and> eventSourceRef (resetRun (stopStream s)) = None"
  by (simp add: resetRun_def overallStatus_def stopStream_def split: option.splits)

theorem resetRun_keeps_stream_witness:
  "open_streams (resetRun (startStream ready_page)) = 1
   \<and> overallStatus (resetRun (startStream ready_page)) = ''RUNNING''
   \<and> events (resetRun (startStream ready_page)) = initial_events"
  using resetRun_keeps_stream [of "startStream ready_page"]
  by (simp add: page_defs concrete_defs)

subsection \<open>An unparseable \<open>final\<close> frame\<close>

text \<open>
  C4. The claim: when a malformed or unparseable final frame arrives, the phase becomes
  error and the error message is set.

  \<open>safeJsonParse\<close> turns the frame into \<open>null\<close>, and the listener guards both of its
  updates (\<open>data?.error\<close>, \<open>else if (data)\<close>), so it only stops the stream. In a run
  just started, the overall status after such a frame is \<open>IDLE\<close> and the error message
  is still empty.
\<close>

theorem final_listener_unparseable_counterexample:
  "overallStatus (final_listener (startStream ready_page) SyntaxError) = ''IDLE''
   \<and> errorMsg (final_listener (startStream ready_page) SyntaxError) = JStr []
   \<and> \<not> truthy (errorMsg (final_listener (startStream ready_page) SyntaxError))"
  by (simp add: page_defs concrete_defs)

text \<open>
  C4, as the code has it. A final frame that does not parse, or parses to a falsy value,
  does what \<open>stopStream\<close> does and nothing more: the stream handle is released, and the
  error message, the result and the stages stay as they were. The overall status is then
  decided by what the page already held: \<open>IDLE\<close> when the error message and the result
  are both empty.
\<close>

theorem final_listener_unparseable:
  assumes "\<not> truthy (safeJsonParse evt)"
  shows "final_listener s evt = stopStream s
   \<and> errorMsg (final_listener s evt) = errorMsg s
   \<and> finalResult (final_listener s evt) = finalResult s
   \<and> events (final_listener s evt) = events s
   \<and> eventSourceRef (final_listener s evt) = None
   \<and> overallStatus (final_listener s evt) =
        (if truthy (errorMsg s) then ''ERROR''
         else if truthy (finalResult s) then ''DONE'' else ''IDLE'')"
proof -
  have "get_prop (safeJsonParse evt) ''error'' = None"
    using assms by (cases "safeJsonParse evt") simp_all
  then have "final_listener s evt = stopStream s"
    using assms by (simp add: final_listener_def Let_def)
  then show ?thesis
    by (simp add: stopStream_def overallStatus_def split: option.splits)
qed

theorem final_listener_unparseable_witness:
  "final_listener (startStream ready_page) SyntaxError = stopStream (startStream ready_page)
   \<and> overallStatus (final_listener (startStream ready_page) SyntaxError) = ''IDLE''"
  using final_listener_unparseable [of SyntaxError "startStream ready_page"]
  by (simp add: page_defs concrete_defs)

subsection \<open>Stage frames\<close>

text \<open>What the \<open>agent\<close> listener leaves alone, when it does not throw.\<close>

lemma agent_listener_frame:
  assumes "agent_listener s evt = Inr s'"
  shows "errorMsg s' = errorMsg s" and "finalResult s' = finalResult s"
    and "isStreaming s' = isStreaming s" and "eventSourceRef s' = eventSourceRef s"
    and "sources s' = sources s" and "question s' = question s" and "docId s' = docId s"
    and "topKSources s' = topKSources s"
  using assms
  by (auto simp: agent_listener_def Let_def split: if_splits sum.splits)

text \<open>The entry the listener stores for a frame whose key is \<open>k\<close>.\<close>

lemma agent_listener_stores:
  assumes "truthy_val (get_prop (safeJsonParse evt) ''agent'')"
    and "toPropertyKey (get_prop (safeJsonParse evt) ''agent'') = Inr k"
  shows "agent_listener s evt =
     Inr (s\<lparr>events := (events s)(k \<mapsto>
        \<lparr>agent = get_prop (safeJsonParse evt) ''agent'',
         status = (if truthy_val (get_prop (safeJsonParse evt) ''status'')
                   then get_prop (safeJsonParse evt) ''status'' else Some (JStr ''running'')),
         summary = get_prop (safeJsonParse evt) ''summary'',
         ms = get_prop (safeJsonParse evt) ''ms'',
         details = Some (safeJsonParse evt)\<rparr>)\<rparr>)"
  using assms by (simp add: agent_listener_def Let_def)

lemma agent_listener_drops:
  assumes "\<not> truthy_val (get_prop (safeJsonParse evt) ''agent'')"
  shows "agent_listener s evt = Inr s"
  using assms by (simp add: agent_listener_def Let_def)

text \<open>
  An \<open>agent\<close> value that cannot be turned into a property key makes the updater throw:
  nothing is stored.
\<close>

lemma agent_listener_throws:
  assumes "truthy_val (get_prop (safeJsonParse evt) ''agent'')"
    and "toPropertyKey (get_prop (safeJsonParse evt) ''agent'') = Inl e"
  shows "agent_listener s evt = Inl e"
  using assms by (simp add: agent_listener_def Let_def)

lemma agent_listener_unkeyable_frame: "agent_listener s unkeyable_frame = Inl TypeError"
  by (simp add: agent_listener_def unkeyable_frame_def safeJsonParse_def truthy_val_def
      toPropertyKey_def)

text \<open>
  C5. The claim: a stage frame whose stage identifier is not one of \<open>relevance\<close>,
  \<open>retrieval\<close>, \<open>research\<close>, \<open>verify\<close> is ignored: it is not applied, and the mapping from
  stages to their states is unchanged.

  The listener does not look at which identifier it got: it stores the frame under the
  identifier as a new key of \<open>events\<close>. After a frame for the stage \<open>summarize\<close> the
  mapping has an entry it did not have.
\<close>

theorem agent_listener_unknown_stage_counterexample:
  "events (startStream ready_page) ''summarize'' = None
   \<and> (\<exists>s'. agent_listener (startStream ready_page)
          (Value (JObj [(''agent'', JStr ''summarize''), (''status'', JStr ''done'')])) = Inr s'
        \<and> events s' ''summarize''
          = Some \<lparr>agent = Some (JStr ''summarize''), status = Some (JStr ''done''),
                  summary = None, ms = None,
                  details = Some (JObj [(''agent'', JStr ''summarize''),
                                        (''status'', JStr ''done'')])\<rparr>)"
  by (simp add: page_defs concrete_defs)

text \<open>
  C5, as the code has it. A stage frame whose identifier turns into a property key that
  is not one of the four recognised stages leaves the entries of the four recognised
  stages unchanged. The frame is not rejected: when its identifier is truthy, the entry
  built from the frame (its identifier, its status or \<open>running\<close>, its summary, its
  timing and the frame itself) is stored under that key, an entry the view never reads,
  and every other entry is unchanged; when its identifier is falsy, the page is
  unchanged.
\<close>

theorem agent_listener_unknown_stage:
  assumes "toPropertyKey (get_prop (safeJsonParse evt) ''agent'') = Inr k"
    and "k \<notin> set AGENT_KEYS"
  shows "\<exists>s'. agent_listener s evt = Inr s'
     \<and> (\<forall>k' \<in> set AGENT_KEYS. events s' k' = events s k')
     \<and> (truthy_val (get_prop (safeJsonParse evt) ''agent'') \<longrightarrow>
          events s' k =
            Some \<lparr>agent = get_prop (safeJsonParse evt) ''agent'',
                  status = (if truthy_val (get_prop (safeJsonParse evt) ''status'')
                            then get_prop (safeJsonParse evt) ''status''
                            else Some (JStr ''running'')),
                  summary = get_prop (safeJsonParse evt) ''summary'',
                  ms = get_prop (safeJsonParse evt) ''ms'',
                  details = Some (safeJsonParse evt)\<rparr>
          \<and> (\<forall>k'. k' \<noteq> k \<longrightarrow> events s' k' = events s k'))
     \<and> (\<not> truthy_val (get_prop (safeJsonParse evt) ''agent'') \<longrightarrow> s' = s)"
proof (cases "truthy_val (get_prop (safeJsonParse evt) ''agent'')")
  case True
  from agent_listener_stores [OF True assms(1), of s] assms(2) True
  show ?thesis by auto
next
  case False
  from agent_listener_drops [OF False, of s] False
  show ?thesis by simp
qed

theorem agent_listener_unknown_stage_witness:
  "\<exists>s'. agent_listener (startStream ready_page)
        (Value (JObj [(''agent'', JStr ''summarize''), (''status'', JStr ''done'')])) = Inr s'
     \<and> events s' ''relevance'' = events (startStream ready_page) ''relevance''
     \<and> events s' ''verify'' = events (startStream ready_page) ''verify''
     \<and> events s' ''summarize''
       = Some \<lparr>agent = Some (JStr ''summarize''), status = Some (JStr ''done''),
               summary = None, ms = None,
               details = Some (JObj [(''agent'', JStr ''summarize''),
                                     (''status'', JStr ''done'')])\<rparr>"
  using agent_listener_unknown_stage [of "Value (JObj [(''agent'', JStr ''summarize''), (''status'', JStr ''done'')])"
     "''summarize''" "startStream ready_page"]
  by (auto simp: safeJsonParse_def toPropertyKey_def truthy_val_def AGENT_KEYS_def)

text \<open>
  C9. A stage frame that does not parse, or that has no \<open>agent\<close> field, is dropped: the
  listener returns without throwing and the page is left exactly as it was, so the
  stages, the overall status and the stream are unchanged and the run goes on.
\<close>

theorem agent_listener_drops_malformed:
  assumes "evt = SyntaxError \<or> get_prop (safeJsonParse evt) ''agent'' = None"
  shows "\<exists>s'. agent_listener s evt = Inr s'
   \<and> s' = s
   \<and> events s' = events s
   \<and> overallStatus s' = overallStatus s
   \<and> isStreaming s' = isStreaming s
   \<and> sources s' = sources s"
proof -
  have "agent_listener s evt = Inr s"
    using assms by (auto simp: agent_listener_def safeJsonParse_def truthy_val_def)
  then show ?thesis by simp
qed

theorem agent_listener_drops_malformed_witness:
  "agent_listener (startStream ready_page) (Value (JObj [(''status'', JStr ''done'')]))
     = Inr (startStream ready_page)
   \<and> agent_listener (startStream ready_page) SyntaxError = Inr (startStream ready_page)
   \<and> overallStatus (startStream ready_page) = ''RUNNING''"
  using agent_listener_drops_malformed [of "Value (JObj [(''status'', JStr ''done'')])" "startStream ready_page"]
    agent_listener_drops_malformed [of SyntaxError "startStream ready_page"]
  by (simp add: page_defs concrete_defs)

text \<open>
  C10. The claim: a stage frame that carries an \<open>agent\<close> field but no status, or a falsy
  one, is still applied, with status \<open>running\<close>.

  The guard of the listener is \<open>!data?.agent\<close>: a frame whose \<open>agent\<close> field is there but
  falsy, such as the empty string, is dropped like one without the field.
\<close>

theorem agent_listener_status_default_counterexample:
  "get_prop (safeJsonParse (Value (JObj [(''agent'', JStr [])]))) ''agent'' = Some (JStr [])
   \<and> get_prop (safeJsonParse (Value (JObj [(''agent'', JStr [])]))) ''status'' = None
   \<and> agent_listener (startStream ready_page) (Value (JObj [(''agent'', JStr [])]))
       = Inr (startStream ready_page)"
  by (simp add: agent_listener_def safeJsonParse_def truthy_val_def)

text \<open>
  C10, as the code has it. A stage frame whose \<open>agent\<close> field is truthy and turns into a
  property key, and whose status is missing or falsy, is applied: the entry of its stage
  is replaced by one built from the frame, with status \<open>running\<close>, whatever the status
  of the stage was before. A stage frame whose \<open>agent\<close> field is present but falsy is
  dropped: the page is left as it was.
\<close>

theorem agent_listener_status_default:
  "(truthy_val (get_prop (safeJsonParse evt) ''agent'')
      \<and> \<not> truthy_val (get_prop (safeJsonParse evt) ''status'')
      \<and> toPropertyKey (get_prop (safeJsonParse evt) ''agent'') = Inr k \<longrightarrow>
      (\<exists>s'. agent_listener s evt = Inr s'
         \<and> events s' k =
             Some \<lparr>agent = get_prop (safeJsonParse evt) ''agent'',
                   status = Some (JStr ''running''),
                   summary = get_prop (safeJsonParse evt) ''summary'',
                   ms = get_prop (safeJsonParse evt) ''ms'',
                   details = Some (safeJsonParse evt)\<rparr>))
   \<and> (get_prop (safeJsonParse evt) ''agent'' = Some a \<and> \<not> truthy a \<longrightarrow>
        agent_listener s evt = Inr s)"
proof (intro conjI impI)
  assume h: "truthy_val (get_prop (safeJsonParse evt) ''agent'')
      \<and> \<not> truthy_val (get_prop (safeJsonParse evt) ''status'')
      \<and> toPropertyKey (get_prop (safeJsonParse evt) ''agent'') = Inr k"
  then have "agent_listener s evt =
     Inr (s\<lparr>events := (events s)(k \<mapsto>
        \<lparr>agent = get_prop (safeJsonParse evt) ''agent'', status = Some (JStr ''running''),
         summary = get_prop (safeJsonParse evt) ''summary'',
         ms = get_prop (safeJsonParse evt) ''ms'',
         details = Some (safeJsonParse evt)\<rparr>)\<rparr>)"
    using agent_listener_stores [of evt k s] by simp
  then show "\<exists>s'. agent_listener s evt = Inr s'
         \<and> events s' k =
             Some \<lparr>agent = get_prop (safeJsonParse evt) ''agent'',
                   status = Some (JStr ''running''),
                   summary = get_prop (safeJsonParse evt) ''summary'',
                   ms = get_prop (safeJsonParse evt) ''ms'',
                   details = Some (safeJsonParse evt)\<rparr>"
    by simp
next
  assume "get_prop (safeJsonParse evt) ''agent'' = Some a \<and> \<not> truthy a"
  then have "\<not> truthy_val (get_prop (safeJsonParse evt) ''agent'')"
    by (simp add: truthy_val_def)
  then show "agent_listener s evt = Inr s"
    by (rule agent_listener_drops)
qed

theorem agent_listener_status_default_witness:
  "(\<exists>s'. agent_listener answered_page
        (Value (JObj [(''agent'', JStr ''relevance''), (''ms'', JNum ''12'')])) = Inr s'
      \<and> events s' ''relevance'' =
          Some \<lparr>agent = Some (JStr ''relevance''), status = Some (JStr ''running''),
                summary = None, ms = Some (JNum ''12''),
                details = Some (JObj [(''agent'', JStr ''relevance''), (''ms'', JNum ''12'')])\<rparr>)
   \<and> status (the (events answered_page ''relevance'')) = Some (JStr ''done'')
   \<and> agent_listener answered_page (Value (JObj [(''agent'', JNum ''0'')])) = Inr answered_page"
  using agent_listener_status_default [of "Value (JObj [(''agent'', JStr ''relevance''), (''ms'', JNum ''12'')])"
     "''relevance''" answered_page JNull]
    agent_listener_status_default [of "Value (JObj [(''agent'', JNum ''0'')])" "''0''"
     answered_page "JNum ''0''"]
  by (simp add: safeJsonParse_def truthy_val_def toPropertyKey_def answered_defs page_defs
      concrete_defs)

subsection \<open>Transport failure\<close>

text \<open>
  C6. When the stream reports an error, the overall status becomes \<open>ERROR\<close>, the error
  message is a non-empty description of the failure, every stage other than \<open>verify\<close>
  keeps its entry, and \<open>verify\<close> is marked \<open>error\<close> unless its status was \<open>done\<close>, which
  it keeps. The \<open>verify\<close> entry is always there on a page that ran from its initial
  state.
\<close>

theorem onerror_marks_verify:
  assumes "events s ''verify'' = Some v"
  shows "\<exists>s'. onerror s = Inr s'
     \<and> overallStatus s' = ''ERROR''
     \<and> errorMsg s' = JStr ''Stream error (backend unreachable or crashed). Check FastAPI logs.''
     \<and> truthy (errorMsg s')
     \<and> (\<forall>k. k \<noteq> ''verify'' \<longrightarrow> events s' k = events s k)
     \<and> events s' ''verify'' =
         Some (v\<lparr>status := Some (if status v = Some (JStr ''done'') then JStr ''done'' else JStr ''error'')\<rparr>)
     \<and> eventSourceRef s' = None \<and> \<not> isStreaming s'"
  using assms by (cases "eventSourceRef s") (simp_all add: onerror_def stopStream_def overallStatus_def Let_def)

theorem onerror_marks_verify_witness:
  "\<exists>s'. onerror (startStream ready_page) = Inr s'
     \<and> overallStatus s' = ''ERROR''
     \<and> truthy (errorMsg s')
     \<and> events s' ''relevance'' = events (startStream ready_page) ''relevance''
     \<and> events s' ''verify'' =
         Some \<lparr>agent = Some (JStr ''verify''), status = Some (JStr ''error''), summary = None,
               ms = None, details = None\<rparr>"
  using onerror_marks_verify [of "startStream ready_page" "idle_event ''verify''"]
  by (simp add: page_defs concrete_defs)

subsection \<open>The final frame of a run\<close>

text \<open>
  During a run the \<open>agent\<close> listener changes nothing but \<open>events\<close>, so the final frame
  finds the error message and the result as \<open>startStream\<close> left them.
\<close>

lemma apply_frames_frame:
  assumes "apply_frames s evts = Inr s'"
  shows "errorMsg s' = errorMsg s" and "finalResult s' = finalResult s"
    and "isStreaming s' = isStreaming s" and "eventSourceRef s' = eventSourceRef s"
    and "sources s' = sources s"
  using assms
  by (induction evts arbitrary: s)
    (auto split: sum.splits dest: agent_listener_frame)

lemma startStream_started:
  assumes "trim (question s) \<noteq> []" and "docId s \<noteq> []"
  shows "errorMsg (startStream s) = JStr []"
    and "finalResult (startStream s) = JNull"
    and "isStreaming (startStream s)"
    and "eventSourceRef (startStream s) = Some (length (sources s))"
    and "sources (startStream s) =
           sources s @ [\<lparr>es_question = trim (question s), es_doc_id = docId s,
                          es_top_k = topKSources s, es_closed = False\<rparr>]"
  using assms by (simp_all add: startStream_def resetRun_def Let_def)

lemma run_frames_started:
  assumes "trim (question s) \<noteq> []" and "docId s \<noteq> []"
    and "run_frames s evts = Inr r"
  shows "errorMsg r = JStr []"
    and "finalResult r = JNull"
    and "isStreaming r"
    and "eventSourceRef r = Some (length (sources s))"
    and "sources r =
           sources s @ [\<lparr>es_question = trim (question s), es_doc_id = docId s,
                          es_top_k = topKSources s, es_closed = False\<rparr>]"
  using assms apply_frames_frame [of "startStream s" evts r]
  by (simp_all add: run_frames_def startStream_started)

text \<open>The frames of a run are all applied when each of them has a key.\<close>

lemma apply_frames_keyable:
  assumes "list_all frame_keyable evts"
  shows "\<exists>r. apply_frames s evts = Inr r"
  using assms
proof (induction evts arbitrary: s)
  case Nil
  show ?case by simp
next
  case (Cons e evts)
  then have "frame_keyable e" and rest: "list_all frame_keyable evts"
    by simp_all
  then have "\<exists>s1. agent_listener s e = Inr s1"
    by (auto simp: frame_keyable_def agent_listener_def Let_def split: sum.splits)
  then obtain s1 where "agent_listener s e = Inr s1" ..
  with Cons.IH [OF rest, of s1] show ?case by simp
qed

text \<open>
  C7. The claim: a final frame whose payload carries an \<open>error\<close> field makes the phase
  error, the error message that text, closes the stream and leaves the result unset;
  otherwise the payload becomes the result and the phase is done.

  The listener tests \<open>data?.error\<close> for truth. A payload whose \<open>error\<close> field is the
  empty string takes the other branch: it is stored as the result and the overall status
  is \<open>DONE\<close>.
\<close>

theorem final_listener_after_run_counterexample:
  "get_prop (safeJsonParse empty_error_frame) ''error'' = Some (JStr [])
   \<and> run_frames ready_page [] = Inr (startStream ready_page)
   \<and> overallStatus (final_listener (startStream ready_page) empty_error_frame) = ''DONE''
   \<and> errorMsg (final_listener (startStream ready_page) empty_error_frame) = JStr []
   \<and> finalResult (final_listener (startStream ready_page) empty_error_frame)
       = JObj [(''question'', JStr ''What is the refund policy?''), (''error'', JStr [])]"
  by (simp add: empty_error_frame_def run_frames_def page_defs concrete_defs)

text \<open>
  C7, as the code has it. In a run started with a valid question and document, the stage
  frames are all applied when each of them has a key; and on the page \<open>r\<close> they leave,
  whatever they were: a final frame whose \<open>error\<close> field is truthy makes the overall
  status \<open>ERROR\<close> and the error message that value, and leaves the result unset; a final
  frame whose payload is truthy and whose \<open>error\<close> field is missing or falsy makes the
  payload the result and the overall status \<open>DONE\<close>. In both cases the stream of the
  run is closed and the handle released.
\<close>

theorem final_listener_after_run:
  assumes "trim (question s) \<noteq> []" and "docId s \<noteq> []"
  shows "(list_all frame_keyable evts \<longrightarrow> (\<exists>r. run_frames s evts = Inr r))
     \<and> (\<forall>r. run_frames s evts = Inr r \<longrightarrow>
          (truthy_val (get_prop (safeJsonParse evt) ''error'') \<longrightarrow>
              overallStatus (final_listener r evt) = ''ERROR''
            \<and> Some (errorMsg (final_listener r evt)) = get_prop (safeJsonParse evt) ''error''
            \<and> finalResult (final_listener r evt) = JNull)
        \<and> (\<not> truthy_val (get_prop (safeJsonParse evt) ''error'') \<and> truthy (safeJsonParse evt) \<longrightarrow>
              overallStatus (final_listener r evt) = ''DONE''
            \<and> finalResult (final_listener r evt) = safeJsonParse evt
            \<and> errorMsg (final_listener r evt) = JStr [])
        \<and> eventSourceRef (final_listener r evt) = None
        \<and> \<not> isStreaming (final_listener r evt)
        \<and> \<not> es_live (final_listener r evt) (length (sources s)))"
proof (intro conjI allI impI)
  assume "list_all frame_keyable evts"
  then show "\<exists>r. run_frames s evts = Inr r"
    by (simp add: run_frames_def apply_frames_keyable)
next
  fix r
  assume r: "run_frames s evts = Inr r"
  note st = run_frames_started [OF assms r]
  {
    assume "truthy_val (get_prop (safeJsonParse evt) ''error'')"
    with st show "overallStatus (final_listener r evt) = ''ERROR''"
      and "Some (errorMsg (final_listener r evt)) = get_prop (safeJsonParse evt) ''error''"
      and "finalResult (final_listener r evt) = JNull"
      by (auto simp: final_listener_def stopStream_def overallStatus_def truthy_val_def Let_def
          split: option.splits)
  }
  {
    assume "\<not> truthy_val (get_prop (safeJsonParse evt) ''error'') \<and> truthy (safeJsonParse evt)"
    with st show "overallStatus (final_listener r evt) = ''DONE''"
      and "finalResult (final_listener r evt) = safeJsonParse evt"
      and "errorMsg (final_listener r evt) = JStr []"
      by (auto simp: final_listener_def stopStream_def overallStatus_def truthy_val_def Let_def
          split: option.splits)
  }
  from st show "eventSourceRef (final_listener r evt) = None"
    and "\<not> isStreaming (final_listener r evt)"
    and "\<not> es_live (final_listener r evt) (length (sources s))"
    by (auto simp: final_listener_def stopStream_def Let_def es_live_def es_close_def
        nth_append split: option.splits)
qed

theorem final_listener_after_run_witness:
  "\<exists>r. run_frames ready_page [relevance_done_frame] = Inr r
     \<and> overallStatus (final_listener r quota_error_frame) = ''ERROR''
     \<and> errorMsg (final_listener r quota_error_frame) = JStr ''LLM quota exceeded''
     \<and> finalResult (final_listener r quota_error_frame) = JNull
     \<and> overallStatus (final_listener r answer_frame) = ''DONE''
     \<and> finalResult (final_listener r answer_frame) = safeJsonParse answer_frame"
proof -
  have k: "list_all frame_keyable [relevance_done_frame]"
    by (simp add: frame_keyable_def relevance_done_frame_def safeJsonParse_def
        toPropertyKey_def)
  have q: "trim (question ready_page) \<noteq> []" "docId ready_page \<noteq> []"
    by (simp_all add: ready_page_def init_page_def trim_def isWhiteSpace_def)
  from final_listener_after_run [OF q, of "[relevance_done_frame]" quota_error_frame]
    final_listener_after_run [OF q, of "[relevance_done_frame]" answer_frame] k
  show ?thesis
    by (auto simp: quota_error_frame_def answer_frame_def safeJsonParse_def truthy_val_def)
qed

subsection \<open>Sequences of stage frames\<close>

lemma valid_stage_frameD:
  assumes "valid_stage_frame evt"
  obtains a st where "get_prop (safeJsonParse evt) ''agent'' = Some (JStr a)"
    and "a \<in> set AGENT_KEYS"
    and "get_prop (safeJsonParse evt) ''status'' = Some (JStr st)"
    and "st \<in> set STATUSES"
  using assms unfolding valid_stage_frame_def
  by (auto split: option.splits json.splits if_splits)

lemma agent_listener_valid:
  assumes "valid_stage_frame evt"
  shows "\<exists>s'. agent_listener s evt = Inr s' \<and> (\<forall>k. events s' k =
     (if get_prop (safeJsonParse evt) ''agent'' = Some (JStr k)
      then Some (frame_entry (safeJsonParse evt)) else events s k))"
proof -
  from assms obtain a st where a: "get_prop (safeJsonParse evt) ''agent'' = Some (JStr a)"
    and ak: "a \<in> set AGENT_KEYS"
    and st: "get_prop (safeJsonParse evt) ''status'' = Some (JStr st)"
    and sk: "st \<in> set STATUSES"
    by (rule valid_stage_frameD)
  from ak have "a \<noteq> []" by (auto simp: AGENT_KEYS_def)
  moreover from sk have "st \<noteq> []" by (auto simp: STATUSES_def)
  ultimately show ?thesis
    using a st
    by (simp add: agent_listener_def Let_def truthy_val_def toPropertyKey_def frame_entry_def)
qed

lemma apply_frames_append:
  "apply_frames s (xs @ ys) =
     (case apply_frames s xs of Inl e \<Rightarrow> Inl e | Inr s' \<Rightarrow> apply_frames s' ys)"
  by (induction xs arbitrary: s) (simp_all split: sum.splits)

lemma last_frame_for_snoc:
  "last_frame_for k (evts @ [e]) =
     (if get_prop (safeJsonParse e) ''agent'' = Some (JStr k) then Some (safeJsonParse e)
      else last_frame_for k evts)"
  by (simp add: last_frame_for_def)

lemma events_apply_frames_valid:
  assumes "\<forall>e \<in> set evts. valid_stage_frame e"
  shows "\<exists>s'. apply_frames s evts = Inr s' \<and> (\<forall>k. events s' k =
     (case last_frame_for k evts of None \<Rightarrow> events s k | Some d \<Rightarrow> Some (frame_entry d)))"
  using assms
proof (induction evts rule: rev_induct)
  case Nil
  show ?case by (simp add: last_frame_for_def)
next
  case (snoc e evts)
  then have v: "valid_stage_frame e" by simp
  from snoc obtain s1 where s1: "apply_frames s evts = Inr s1"
    and IH: "\<forall>k. events s1 k =
     (case last_frame_for k evts of None \<Rightarrow> events s k | Some d \<Rightarrow> Some (frame_entry d))"
    by auto
  from agent_listener_valid [OF v, of s1] obtain s2 where s2: "agent_listener s1 e = Inr s2"
    and step: "\<forall>k. events s2 k =
     (if get_prop (safeJsonParse e) ''agent'' = Some (JStr k)
      then Some (frame_entry (safeJsonParse e)) else events s1 k)"
    by blast
  have "apply_frames s (evts @ [e]) = Inr s2"
    by (simp add: apply_frames_append s1 s2)
  moreover have "\<forall>k. events s2 k =
     (case last_frame_for k (evts @ [e]) of None \<Rightarrow> events s k
      | Some d \<Rightarrow> Some (frame_entry d))"
    by (simp add: step IH last_frame_for_snoc)
  ultimately show ?case by blast
qed

lemma last_frame_for_agent:
  assumes "last_frame_for k evts = Some d"
  shows "get_prop d ''agent'' = Some (JStr k)"
proof -
  from assms obtain e es where
    "filter (\<lambda>e. get_prop (safeJsonParse e) ''agent'' = Some (JStr k)) (rev evts) = e # es"
    and d: "d = safeJsonParse e"
    by (auto simp: last_frame_for_def split: list.splits)
  then have "e \<in> set (filter (\<lambda>e. get_prop (safeJsonParse e) ''agent'' = Some (JStr k)) (rev evts))"
    by simp
  with d show ?thesis by simp
qed

text \<open>
  C8. After a sequence of valid stage frames, applied in order, the listener has thrown
  on none and the entry of every stage holds exactly the fields of the last frame
  received for that stage (its status, summary, timing and the frame itself); a stage
  that received no frame keeps the entry it had. The right-hand side looks only at the
  last frame of each stage, so how the frames of different stages are interleaved makes
  no difference.
\<close>

theorem stage_frames_last_wins:
  assumes "\<forall>e \<in> set evts. valid_stage_frame e"
  shows "\<exists>s'. apply_frames s evts = Inr s' \<and> (\<forall>k. events s' k =
     (case last_frame_for k evts of
        None \<Rightarrow> events s k
      | Some d \<Rightarrow>
          Some \<lparr>agent = Some (JStr k), status = get_prop d ''status'',
                summary = get_prop d ''summary'', ms = get_prop d ''ms'', details = Some d\<rparr>))"
proof -
  from events_apply_frames_valid [OF assms, of s] obtain s' where
    s': "apply_frames s evts = Inr s'"
    and ev: "\<forall>k. events s' k =
     (case last_frame_for k evts of None \<Rightarrow> events s k | Some d \<Rightarrow> Some (frame_entry d))"
    by blast
  have "events s' k =
     (case last_frame_for k evts of
        None \<Rightarrow> events s k
      | Some d \<Rightarrow>
          Some \<lparr>agent = Some (JStr k), status = get_prop d ''status'',
                summary = get_prop d ''summary'', ms = get_prop d ''ms'', details = Some d\<rparr>)"
    for k
    using ev last_frame_for_agent [of k evts]
    by (cases "last_frame_for k evts") (simp_all add: frame_entry_def)
  with s' show ?thesis by blast
qed

theorem stage_frames_last_wins_witness:
  "\<exists>s'. apply_frames (startStream ready_page)
      [retrieval_running_frame, relevance_done_frame, retrieval_done_frame] = Inr s'
   \<and> events s' ''retrieval''
     = Some \<lparr>agent = Some (JStr ''retrieval''), status = Some (JStr ''done''), summary = None,
             ms = Some (JNum ''42''), details = Some (safeJsonParse retrieval_done_frame)\<rparr>
   \<and> events s' ''verify'' = events (startStream ready_page) ''verify''"
proof -
  have v: "\<forall>e \<in> set [retrieval_running_frame, relevance_done_frame, retrieval_done_frame].
     valid_stage_frame e"
    by (simp add: valid_stage_frame_def retrieval_running_frame_def retrieval_done_frame_def
        relevance_done_frame_def safeJsonParse_def AGENT_KEYS_def STATUSES_def)
  have l: "last_frame_for ''retrieval''
      [retrieval_running_frame, relevance_done_frame, retrieval_done_frame]
        = Some (safeJsonParse retrieval_done_frame)"
     "last_frame_for ''verify''
      [retrieval_running_frame, relevance_done_frame, retrieval_done_frame] = None"
    by (simp_all add: last_frame_for_def retrieval_running_frame_def retrieval_done_frame_def
        relevance_done_frame_def safeJsonParse_def)
  from stage_frames_last_wins [OF v, of "startStream ready_page"] obtain s' where
    "apply_frames (startStream ready_page)
      [retrieval_running_frame, relevance_done_frame, retrieval_done_frame] = Inr s'"
    and ev: "\<forall>k. events s' k =
     (case last_frame_for k [retrieval_running_frame, relevance_done_frame, retrieval_done_frame] of
        None \<Rightarrow> events (startStream ready_page) k
      | Some d \<Rightarrow>
          Some \<lparr>agent = Some (JStr k), status = get_prop d ''status'',
                summary = get_prop d ''summary'', ms = get_prop d ''ms'', details = Some d\<rparr>)"
    by blast
  moreover from ev l have "events s' ''retrieval''
     = Some \<lparr>agent = Some (JStr ''retrieval''), status = Some (JStr ''done''), summary = None,
             ms = Some (JNum ''42''), details = Some (safeJsonParse retrieval_done_frame)\<rparr>"
    by (simp add: retrieval_done_frame_def safeJsonParse_def)
  moreover from ev l have "events s' ''verify'' = events (startStream ready_page) ''verify''"
    by simp
  ultimately show ?thesis by blast
qed

text \<open>Two sequences with the same last frame for every stage give the same stage states.\<close>

lemma stage_frames_interleaving:
  assumes "\<forall>e \<in> set evts. valid_stage_frame e" and "\<forall>e \<in> set evts'. valid_stage_frame e"
    and "\<forall>k. last_frame_for k evts = last_frame_for k evts'"
  shows "\<exists>s1 s2. apply_frames s evts = Inr s1 \<and> apply_frames s evts' = Inr s2
     \<and> events s1 = events s2"
proof -
  from events_apply_frames_valid [OF assms(1), of s] obtain s1 where
    s1: "apply_frames s evts = Inr s1"
    and e1: "\<forall>k. events s1 k =
     (case last_frame_for k evts of None \<Rightarrow> events s k | Some d \<Rightarrow> Some (frame_entry d))"
    by blast
  from events_apply_frames_valid [OF assms(2), of s] obtain s2 where
    s2: "apply_frames s evts' = Inr s2"
    and e2: "\<forall>k. events s2 k =
     (case last_frame_for k evts' of None \<Rightarrow> events s k | Some d \<Rightarrow> Some (frame_entry d))"
    by blast
  have "events s1 = events s2"
    by (rule ext) (simp add: e1 e2 assms(3))
  with s1 s2 show ?thesis by blast
qed

subsection \<open>At most one open stream\<close>

lemma filter_update_count:
  assumes "i < length xs" and "P (xs ! i)" and "\<not> P y"
  shows "Suc (length (filter P (xs[i := y]))) = length (filter P xs)"
  using assms
proof (induction xs arbitrary: i)
  case Nil
  then show ?case by simp
next
  case (Cons x xs)
  show ?case
  proof (cases i)
    case 0
    with Cons.prems show ?thesis by simp
  next
    case (Suc j)
    with Cons.prems have "Suc (length (filter P (xs[j := y]))) = length (filter P xs)"
      by (intro Cons.IH) simp_all
    with Suc show ?thesis by simp
  qed
qed

lemma page_inv_init: "page_inv init_page"
  by (simp add: page_inv_def init_page_def open_streams_def initial_events_def)

lemma page_inv_same:
  assumes "page_inv s"
    and "sources t = sources s" and "eventSourceRef t = eventSourceRef s"
    and "isStreaming t = isStreaming s" and "events t ''verify'' \<noteq> None"
  shows "page_inv t"
  using assms
  by (cases "eventSourceRef s")
    (auto simp: page_inv_def open_streams_def es_live_def split: if_splits)

lemma page_inv_verify: "page_inv s \<Longrightarrow> events s ''verify'' \<noteq> None"
  by (simp add: page_inv_def)

lemma page_inv_stopStream:
  assumes "page_inv s"
  shows "page_inv (stopStream s)"
proof (cases "eventSourceRef s")
  case None
  with assms show ?thesis by (simp add: page_inv_def stopStream_def open_streams_def)
next
  case (Some i)
  with assms have live: "i < length (sources s)" "\<not> es_closed (sources s ! i)"
    and one: "open_streams s = 1" and v: "events s ''verify'' \<noteq> None"
    by (auto simp: page_inv_def es_live_def split: if_splits)
  have "Suc (length (filter (\<lambda>e. \<not> es_closed e)
          ((sources s)[i := (sources s ! i)\<lparr>es_closed := True\<rparr>])))
        = length (filter (\<lambda>e. \<not> es_closed e) (sources s))"
    using live by (intro filter_update_count) simp_all
  with one have "open_streams (stopStream s) = 0"
    using Some live by (simp add: stopStream_def open_streams_def es_close_def)
  with v Some show ?thesis by (simp add: page_inv_def stopStream_def)
qed

lemma page_inv_resetRun:
  assumes "page_inv s"
  shows "page_inv (resetRun s)"
  using assms by (rule page_inv_same) (simp_all add: resetRun_def initial_events_def)

lemma page_inv_errorMsg:
  assumes "page_inv s"
  shows "page_inv (s\<lparr>errorMsg := m\<rparr>)"
  using assms by (rule page_inv_same) (simp_all add: page_inv_verify [OF assms])

lemma page_inv_finalResult:
  assumes "page_inv s"
  shows "page_inv (s\<lparr>finalResult := d\<rparr>)"
  using assms by (rule page_inv_same) (simp_all add: page_inv_verify [OF assms])

lemma page_inv_startStream:
  assumes "page_inv s" and "\<not> isStreaming s"
  shows "page_inv (startStream s)"
proof -
  from assms have none: "eventSourceRef s = None" and zero: "open_streams s = 0"
    by (auto simp: page_inv_def split: if_splits)
  show ?thesis
  proof (cases "trim (question s) = [] \<or> docId s = []")
    case True
    then show ?thesis
      using page_inv_errorMsg [OF page_inv_resetRun [OF assms(1)]]
      by (auto simp: startStream_def Let_def)
  next
    case False
    then show ?thesis
      using none zero
      by (simp add: page_inv_def startStream_def resetRun_def Let_def open_streams_def
          es_live_def initial_events_def)
  qed
qed

lemma page_inv_agent_listener:
  assumes "page_inv s" and "agent_listener s evt = Inr s'"
  shows "page_inv s'"
proof -
  from assms(1) obtain v where v: "events s ''verify'' = Some v"
    using page_inv_verify by blast
  have v': "events s' ''verify'' \<noteq> None"
    using assms(2) v
    by (auto simp: agent_listener_def Let_def split: if_splits sum.splits)
  show ?thesis
    by (rule page_inv_same [OF assms(1)]) (simp_all add: agent_listener_frame [OF assms(2)] v')
qed

lemma page_inv_final_listener:
  assumes "page_inv s"
  shows "page_inv (final_listener s evt)"
  using assms
  by (auto simp: final_listener_def Let_def
      intro!: page_inv_stopStream page_inv_errorMsg page_inv_finalResult
      split: option.splits)

lemma page_inv_onerror:
  assumes "page_inv s"
  shows "\<exists>s'. onerror s = Inr s' \<and> page_inv s'"
proof -
  let ?m = "JStr ''Stream error (backend unreachable or crashed). Check FastAPI logs.''"
  let ?t = "(stopStream s)\<lparr>errorMsg := ?m\<rparr>"
  have t: "page_inv ?t"
    by (intro page_inv_errorMsg page_inv_stopStream assms)
  then obtain v where v: "events ?t ''verify'' = Some v"
    using page_inv_verify by blast
  have "page_inv (?t\<lparr>events := (events ?t)(''verify'' \<mapsto> w)\<rparr>)" for w
    using t by (rule page_inv_same) simp_all
  with v show ?thesis
    by (simp add: onerror_def Let_def)
qed

lemma page_inv_inputs:
  assumes "page_inv s"
  shows "page_inv (s\<lparr>question := q\<rparr>)" and "page_inv (s\<lparr>docId := d\<rparr>)"
    and "page_inv (s\<lparr>topKSources := n\<rparr>)"
  by (rule page_inv_same [OF assms]; simp add: page_inv_verify [OF assms])+

text \<open>A handler that returns keeps the invariant; only an \<open>agent\<close> frame without a key throws.\<close>

lemma page_inv_handler:
  assumes "page_inv s" and "enabled s a" and "handler s a = Inr s'"
  shows "page_inv s'"
proof (cases a)
  case ClickRun
  with assms show ?thesis by (auto simp: run_disabled_def page_inv_startStream)
next
  case (StreamError i)
  with assms page_inv_onerror [OF assms(1)] show ?thesis by auto
next
  case (AgentFrame i d)
  with assms show ?thesis by (auto intro: page_inv_agent_listener)
qed (use assms in \<open>auto simp: page_inv_stopStream page_inv_resetRun
      page_inv_final_listener page_inv_inputs\<close>)

lemma handler_returns:
  assumes "page_inv s" and "action_keyable a"
  shows "\<exists>s'. handler s a = Inr s'"
proof (cases a)
  case (StreamError i)
  with page_inv_onerror [OF assms(1)] show ?thesis by auto
next
  case (AgentFrame i d)
  with assms(2) show ?thesis
    by (auto simp: frame_keyable_def agent_listener_def Let_def split: sum.splits)
qed simp_all

lemma page_inv_run_ui:
  assumes "page_inv s" and "run_ui s acts = Inr s'"
  shows "page_inv s'"
  using assms
proof (induction acts arbitrary: s)
  case Nil
  then show ?case by simp
next
  case (Cons a acts)
  show ?case
  proof (cases "enabled s a")
    case True
    with Cons.prems obtain s1 where h: "handler s a = Inr s1" and r: "run_ui s1 acts = Inr s'"
      by (auto split: sum.splits)
    from page_inv_handler [OF Cons.prems(1) True h] r show ?thesis
      by (rule Cons.IH)
  next
    case False
    with Cons show ?thesis by simp
  qed
qed

lemma run_ui_returns:
  assumes "page_inv s" and "list_all action_keyable acts"
  shows "\<exists>s'. run_ui s acts = Inr s'"
  using assms
proof (induction acts arbitrary: s)
  case Nil
  then show ?case by simp
next
  case (Cons a acts)
  then have k: "action_keyable a" and rest: "list_all action_keyable acts"
    by simp_all
  show ?case
  proof (cases "enabled s a")
    case True
    from handler_returns [OF Cons.prems(1) k] obtain s1 where h: "handler s a = Inr s1"
      by blast
    from page_inv_handler [OF Cons.prems(1) True h] have "page_inv s1" .
    from Cons.IH [OF this rest] h True show ?thesis by simp
  next
    case False
    with Cons.IH [OF Cons.prems(1) rest] show ?thesis by simp
  qed
qed

lemma page_inv_open_streams: "page_inv s \<Longrightarrow> open_streams s \<le> 1"
  by (auto simp: page_inv_def split: option.splits)

text \<open>
  C1. The claim: at every point of any sequence of start, cancel, reset and inbound
  events at most one stream is open; in particular a start while a stream is open closes
  that stream before it opens the new one.

  \<open>startStream\<close> never closes anything: it overwrites the handle. Called on a page that
  is streaming, it leaves the first \<open>EventSource\<close> open and opens a second.
\<close>

theorem at_most_one_stream_counterexample:
  "isStreaming (startStream ready_page)
   \<and> open_streams (startStream ready_page) = 1
   \<and> open_streams (startStream (startStream ready_page)) = 2
   \<and> es_live (startStream (startStream ready_page)) 0
   \<and> es_live (startStream (startStream ready_page)) 1
   \<and> eventSourceRef (startStream (startStream ready_page)) = Some 1
   \<and> run_calls ready_page [ClickRun, ClickRun] = Inr (startStream (startStream ready_page))"
  by (simp add: page_defs concrete_defs)

text \<open>
  C1, as the code has it. The Run button is disabled while \<open>isStreaming\<close> is on, so on
  the rendered page \<open>startStream\<close> is never called while a stream is open. At every
  point of any sequence of user actions (editing the inputs, Run, Stop, Reset) and
  inbound events on the page from its initial state, for as long as no state updater has
  thrown, at most one \<open>EventSource\<close> is open; and none throws when the \<open>agent\<close> value of
  every stage frame can be turned into a property key.
\<close>

theorem at_most_one_stream:
  "(\<forall>s'. run_ui init_page (take n acts) = Inr s' \<longrightarrow> open_streams s' \<le> 1)
   \<and> (list_all action_keyable acts \<longrightarrow> (\<exists>s'. run_ui init_page (take n acts) = Inr s'))"
proof (intro conjI allI impI)
  fix s'
  assume "run_ui init_page (take n acts) = Inr s'"
  from page_inv_run_ui [OF page_inv_init this] show "open_streams s' \<le> 1"
    by (rule page_inv_open_streams)
next
  assume "list_all action_keyable acts"
  then have "list_all action_keyable (take n acts)"
    by (auto simp: list_all_iff dest: in_set_takeD)
  with page_inv_init show "\<exists>s'. run_ui init_page (take n acts) = Inr s'"
    by (rule run_ui_returns)
qed

theorem at_most_one_stream_witness:
  "\<exists>s'. run_ui init_page
       [SetQuestion ''What is the refund policy?'', SetDocId ''policy.pdf'', ClickRun, ClickRun,
        AgentFrame 0 relevance_done_frame, ClickReset, FinalFrame 0 answer_frame, ClickRun]
       = Inr s' \<and> open_streams s' \<le> 1"
proof -
  have "list_all action_keyable
       [SetQuestion ''What is the refund policy?'', SetDocId ''policy.pdf'', ClickRun, ClickRun,
        AgentFrame 0 relevance_done_frame, ClickReset, FinalFrame 0 answer_frame, ClickRun]"
    by (simp add: frame_keyable_def relevance_done_frame_def safeJsonParse_def
        toPropertyKey_def)
  moreover have "take 8
       [SetQuestion ''What is the refund policy?'', SetDocId ''policy.pdf'', ClickRun, ClickRun,
        AgentFrame 0 relevance_done_frame, ClickReset, FinalFrame 0 answer_frame, ClickRun]
     = [SetQuestion ''What is the refund policy?'', SetDocId ''policy.pdf'', ClickRun, ClickRun,
        AgentFrame 0 relevance_done_frame, ClickReset, FinalFrame 0 answer_frame, ClickRun]"
    by simp
  ultimately show ?thesis
    using at_most_one_stream [of 8
      "[SetQuestion ''What is the refund policy?'', SetDocId ''policy.pdf'', ClickRun, ClickRun,
        AgentFrame 0 relevance_done_frame, ClickReset, FinalFrame 0 answer_frame, ClickRun]"]
    by metis
qed

text \<open>A frame without a key ends the page: the run of the page stops with the throw.\<close>

lemma run_ui_unkeyable_frame:
  "run_ui ready_page [ClickRun, AgentFrame 0 unkeyable_frame] = Inl TypeError"
  by (simp add: agent_listener_unkeyable_frame run_disabled_def startStream_def resetRun_def
      spread_status_def concrete_defs)

end
